theory Spec2Isabelle
  imports Main "HOL-Library.AList"
begin

section \<open>Copy control of class Apple (cpp/class/copy\_control/function.cpp)\<close>

text \<open>
  The program is embedded with an explicit store, because its claims are about which
  object owns which allocation.  A state holds the objects of type Apple that are alive
  (the automatic variables of \<open>main\<close> and the parameter of \<open>func\<close>, addressed by their
  names), the free store on which the strings live, and the lines written to
  \<open>cout\<close>.  The free store's allocator is a parameter of every operation that allocates:
  the language only promises that \<open>new\<close> returns storage that is not in use, so the
  theorems quantify over every allocator with that property.  Running out of memory is
  outside the model: an allocation always returns.
\<close>

subsection \<open>Data\<close>

type_synonym addr = nat

text \<open>A \<open>shared_ptr<string>\<close> is empty (\<open>None\<close>) or points to a block of the free store.\<close>

type_synonym shared_ptr = "addr option"

text \<open>What a \<open>shared_ptr\<close> points to: the string and the number of owners.\<close>

record block =
  str :: string
  use_count :: nat

type_synonym free_store = "(addr \<times> block) list"

type_synonym allocator = "free_store \<Rightarrow> addr"

record Apple =
  name :: shared_ptr

type_synonym oref = string

record state =
  objs :: "(oref \<times> Apple) list"
  heap :: free_store
  cout :: "string list"

text \<open>Undefined behaviour of the language, as a value.\<close>

datatype fault = NullDeref | DanglingPtr | DeadObject

definition bnd :: "fault + 'a \<Rightarrow> ('a \<Rightarrow> fault + 'b) \<Rightarrow> fault + 'b" where
  "bnd m f = (case m of Inl e \<Rightarrow> Inl e | Inr x \<Rightarrow> f x)"

subsection \<open>The free store and \<open>shared_ptr\<close>\<close>

text \<open>\<open>shared_ptr<string>(new string(c))\<close> and \<open>make_shared<string>(c)\<close>: a new block
  holding a copy of \<open>c\<close>, with one owner, at the address the allocator returns.\<close>

definition new_string :: "allocator \<Rightarrow> string \<Rightarrow> free_store \<Rightarrow> addr \<times> free_store" where
  "new_string al c h = (let a = al h in (a, AList.update a \<lparr>str = c, use_count = 1\<rparr> h))"

text \<open>\<open>*p\<close>.\<close>

definition deref :: "shared_ptr \<Rightarrow> free_store \<Rightarrow> fault + string" where
  "deref p h =
     (case p of
        None \<Rightarrow> Inl NullDeref
      | Some a \<Rightarrow> (case map_of h a of None \<Rightarrow> Inl DanglingPtr | Some b \<Rightarrow> Inr (str b)))"

text \<open>A \<open>shared_ptr\<close> gives up what it points to (its destructor, or the left side of its
  assignment): the last owner frees the block.\<close>

definition release :: "shared_ptr \<Rightarrow> free_store \<Rightarrow> fault + free_store" where
  "release p h =
     (case p of
        None \<Rightarrow> Inr h
      | Some a \<Rightarrow>
          (case map_of h a of
             None \<Rightarrow> Inl DanglingPtr
           | Some b \<Rightarrow>
               if use_count b \<le> 1 then Inr (AList.delete a h)
               else Inr (AList.update a (b\<lparr>use_count := use_count b - 1\<rparr>) h)))"

text \<open>\<open>cout << l << endl\<close>.\<close>

definition endl :: "string \<Rightarrow> state \<Rightarrow> state" where
  "endl l s = s\<lparr>cout := cout s @ [l]\<rparr>"

subsection \<open>class Apple\<close>

text \<open>\<open>Apple() : name(new string) { cout << "default constructor" << endl; }\<close>\<close>

definition Apple_default :: "allocator \<Rightarrow> oref \<Rightarrow> state \<Rightarrow> state" where
  "Apple_default al this s =
     (let (a, h) = new_string al [] (heap s)
      in endl ''default constructor''
           (s\<lparr>objs := AList.update this \<lparr>name = Some a\<rparr> (objs s), heap := h\<rparr>))"

text \<open>\<open>Apple(const Apple &copy_instance) : name(new string(*copy_instance.name))
  { cout << "copy constructor" << endl; }\<close>\<close>

definition Apple_copy :: "allocator \<Rightarrow> oref \<Rightarrow> oref \<Rightarrow> state \<Rightarrow> fault + state" where
  "Apple_copy al this copy_instance s =
     (case map_of (objs s) copy_instance of
        None \<Rightarrow> Inl DeadObject
      | Some src \<Rightarrow>
          bnd (deref (name src) (heap s)) (\<lambda>c.
            let (a, h) = new_string al c (heap s)
            in Inr (endl ''copy constructor''
                     (s\<lparr>objs := AList.update this \<lparr>name = Some a\<rparr> (objs s), heap := h\<rparr>))))"

text \<open>\<open>Apple &operator=(const Apple &op)
  { name = make_shared<string>(*op.name); cout << "operator=" << endl; return *this; }\<close>

  The right side is evaluated first: the duplicate exists before \<open>name\<close> gives up the block
  it held.  The result is the object assigned to.\<close>

definition operator_assign :: "allocator \<Rightarrow> oref \<Rightarrow> oref \<Rightarrow> state \<Rightarrow> fault + oref \<times> state" where
  "operator_assign al this op s =
     (case map_of (objs s) op of
        None \<Rightarrow> Inl DeadObject
      | Some src \<Rightarrow>
          bnd (deref (name src) (heap s)) (\<lambda>c.
            let (a, h1) = new_string al c (heap s)
            in (case map_of (objs s) this of
                  None \<Rightarrow> Inl DeadObject
                | Some t \<Rightarrow>
                    bnd (release (name t) h1) (\<lambda>h2.
                      Inr (this,
                           endl ''operator=''
                             (s\<lparr>objs := AList.update this (t\<lparr>name := Some a\<rparr>) (objs s),
                                heap := h2\<rparr>))))))"

text \<open>The implicit destructor: the member \<open>name\<close> is destroyed and the object is gone.\<close>

definition Apple_dtor :: "oref \<Rightarrow> state \<Rightarrow> fault + state" where
  "Apple_dtor this s =
     (case map_of (objs s) this of
        None \<Rightarrow> Inl DeadObject
      | Some t \<Rightarrow>
          bnd (release (name t) (heap s)) (\<lambda>h.
            Inr (s\<lparr>objs := AList.delete this (objs s), heap := h\<rparr>)))"

subsection \<open>The free functions and \<open>main\<close>\<close>

text \<open>\<open>void func(Apple app) { cout << "func" << endl; }\<close>, called with the object \<open>arg\<close>: the
  parameter \<open>app\<close> is copy-initialised from the argument, the body runs, and the parameter
  is destroyed when the call returns.\<close>

definition func :: "allocator \<Rightarrow> oref \<Rightarrow> state \<Rightarrow> fault + state" where
  "func al arg s =
     bnd (Apple_copy al ''app'' arg s) (\<lambda>s1.
       let s2 = endl ''func'' s1
       in Apple_dtor ''app'' s2)"

text \<open>\<open>void r_func(Apple &app) { cout << "r_func" << endl; }\<close>\<close>

definition r_func :: "oref \<Rightarrow> state \<Rightarrow> state" where
  "r_func app s = endl ''r_func'' s"

text \<open>\<open>void p_func(Apple *app) { cout << "p_func" << endl; }\<close>: a pointer may be null.\<close>

definition p_func :: "oref option \<Rightarrow> state \<Rightarrow> state" where
  "p_func app s = endl ''p_func'' s"

text \<open>\<open>main\<close>: the three declarations, the marker line, the three calls, \<open>return 0\<close>, and
  the destruction of the automatic variables in reverse order of their declaration.
  \<open>Apple _3 = _2;\<close> declares \<open>_3\<close>, so it is an initialisation by the copy constructor.\<close>

definition main :: "allocator \<Rightarrow> state \<Rightarrow> fault + int \<times> state" where
  "main al s0 =
     (let s1 = Apple_default al ''_1'' s0 in
      bnd (Apple_copy al ''_2'' ''_1'' s1) (\<lambda>s2.
      bnd (Apple_copy al ''_3'' ''_2'' s2) (\<lambda>s3.
      let s4 = endl ''test func parameter'' s3 in
      bnd (func al ''_1'' s4) (\<lambda>s5.
      let s6 = r_func ''_1'' s5;
          s7 = p_func (Some ''_1'') s6 in
      bnd (Apple_dtor ''_3'' s7) (\<lambda>s8.
      bnd (Apple_dtor ''_2'' s8) (\<lambda>s9.
      bnd (Apple_dtor ''_1'' s9) (\<lambda>s10.
      Inr (0, s10))))))))"

text \<open>The state in which \<open>main\<close> is entered: nothing written, no Apple alive, and a free
  store that holds whatever the runtime has put there.\<close>

definition start :: "free_store \<Rightarrow> state" where
  "start h = \<lparr>objs = [], heap = h, cout = []\<rparr>"

text \<open>What the environment sees of a run: the exit code and the lines on standard output.\<close>

definition observe :: "fault + int \<times> state \<Rightarrow> fault + int \<times> string list" where
  "observe r = (case r of Inl e \<Rightarrow> Inl e | Inr (rc, s) \<Rightarrow> Inr (rc, cout s))"

subsection \<open>Observations of a state\<close>

text \<open>The content of the payload of the object \<open>x\<close>: \<open>*x.name\<close>.\<close>

definition payload :: "state \<Rightarrow> oref \<Rightarrow> fault + string" where
  "payload s x =
     (case map_of (objs s) x of
        None \<Rightarrow> Inl DeadObject
      | Some ap \<Rightarrow> deref (name ap) (heap s))"

text \<open>The allocation of the payload of the object \<open>x\<close>: \<open>x.name.get()\<close>.\<close>

definition payload_addr :: "state \<Rightarrow> oref \<Rightarrow> shared_ptr" where
  "payload_addr s x = (case map_of (objs s) x of None \<Rightarrow> None | Some ap \<Rightarrow> name ap)"

text \<open>An object owns its payload: \<open>name\<close> is not empty and points to a block of the free
  store of which it is the only owner.\<close>

definition owns :: "free_store \<Rightarrow> Apple \<Rightarrow> bool" where
  "owns h ap =
     (case name ap of
        None \<Rightarrow> False
      | Some p \<Rightarrow> (case map_of h p of None \<Rightarrow> False | Some b \<Rightarrow> use_count b = 1))"

text \<open>The invariant of the class, over all objects alive: each owns its payload, and no two
  of them hold the same allocation.\<close>

definition apple_inv :: "state \<Rightarrow> bool" where
  "apple_inv s =
     (let xs = map fst (objs s) in
      list_all (\<lambda>x. case map_of (objs s) x of None \<Rightarrow> False | Some ap \<Rightarrow> owns (heap s) ap) xs \<and>
      list_all (\<lambda>x. list_all (\<lambda>y. x = y \<or> payload_addr s x \<noteq> payload_addr s y) xs) xs)"

text \<open>The allocator returns storage that is not in use.\<close>

definition fresh_at :: "allocator \<Rightarrow> free_store \<Rightarrow> bool" where
  "fresh_at al h = (map_of h (al h) = None)"

definition fresh :: "allocator \<Rightarrow> bool" where
  "fresh al = (\<forall>h. fresh_at al h)"

text \<open>Two allocators to run the model with: one never returns an address twice, the other
  returns the lowest address that is free, so it hands out again what was freed.\<close>

definition bump :: allocator where
  "bump h = Suc (sum_list (map fst h))"

definition first_fit :: allocator where
  "first_fit h = hd (filter (\<lambda>a. map_of h a = None) [0 ..< Suc (length h)] @ [length h])"

section \<open>Auxiliary facts\<close>

lemma bnd_simps [simp]: "bnd (Inl e) f = Inl e" "bnd (Inr x) f = f x"
  by (simp_all add: bnd_def)

lemma endl_simps [simp]:
  "objs (endl l s) = objs s" "heap (endl l s) = heap s" "cout (endl l s) = cout s @ [l]"
  by (simp_all add: endl_def)

lemma live_key: "map_of xs x = Some v \<Longrightarrow> x \<in> fst ` set xs"
  by (metis map_of_eq_None_iff option.distinct(1))

lemma key_live: "x \<in> fst ` set xs \<Longrightarrow> \<exists>v. map_of xs x = Some v"
  by (metis map_of_eq_None_iff not_None_eq)

lemma apple_inv_iff:
  "apple_inv s \<longleftrightarrow>
     (\<forall>x ap. map_of (objs s) x = Some ap \<longrightarrow> owns (heap s) ap) \<and>
     (\<forall>x y ap aq. map_of (objs s) x = Some ap \<longrightarrow> map_of (objs s) y = Some aq \<longrightarrow>
        name ap = name aq \<longrightarrow> x = y)"
  (is "?L \<longleftrightarrow> ?A \<and> ?B")
proof
  assume L: ?L
  have A: ?A
  proof (intro allI impI)
    fix x ap assume m: "map_of (objs s) x = Some ap"
    from L live_key[OF m]
    have "case map_of (objs s) x of None \<Rightarrow> False | Some ap \<Rightarrow> owns (heap s) ap"
      by (force simp: apple_inv_def Let_def list_all_iff)
    with m show "owns (heap s) ap" by simp
  qed
  have B: ?B
  proof (intro allI impI)
    fix x y ap aq
    assume mx: "map_of (objs s) x = Some ap" and my: "map_of (objs s) y = Some aq"
      and eq: "name ap = name aq"
    from L live_key[OF mx] live_key[OF my]
    have "x = y \<or> payload_addr s x \<noteq> payload_addr s y"
      by (force simp: apple_inv_def Let_def list_all_iff)
    with mx my eq show "x = y" by (simp add: payload_addr_def)
  qed
  from A B show "?A \<and> ?B" ..
next
  assume R: "?A \<and> ?B"
  show ?L
    unfolding apple_inv_def Let_def list_all_iff
  proof (intro conjI ballI)
    fix x assume "x \<in> set (map fst (objs s))"
    then have "x \<in> fst ` set (objs s)" by simp
    from key_live[OF this] obtain ap where m: "map_of (objs s) x = Some ap" ..
    with R show "case map_of (objs s) x of None \<Rightarrow> False | Some ap \<Rightarrow> owns (heap s) ap" by simp
  next
    fix x y assume "x \<in> set (map fst (objs s))" "y \<in> set (map fst (objs s))"
    then have "x \<in> fst ` set (objs s)" "y \<in> fst ` set (objs s)" by simp_all
    then obtain ap aq where m: "map_of (objs s) x = Some ap" "map_of (objs s) y = Some aq"
      using key_live by metis
    with R have "name ap = name aq \<Longrightarrow> x = y" by blast
    with m show "x = y \<or> payload_addr s x \<noteq> payload_addr s y"
      by (auto simp: payload_addr_def)
  qed
qed

lemma owns_iff: "owns h ap \<longleftrightarrow> (\<exists>p b. name ap = Some p \<and> map_of h p = Some b \<and> use_count b = 1)"
  by (auto simp: owns_def split: option.splits)

lemma apple_inv_owns:
  "apple_inv s \<Longrightarrow> map_of (objs s) x = Some ap \<Longrightarrow>
   \<exists>p b. name ap = Some p \<and> map_of (heap s) p = Some b \<and> use_count b = 1"
  by (simp add: apple_inv_iff owns_iff)

lemma apple_inv_inj:
  "apple_inv s \<Longrightarrow> map_of (objs s) x = Some ap \<Longrightarrow> map_of (objs s) y = Some aq \<Longrightarrow>
   name ap = name aq \<Longrightarrow> x = y"
  unfolding apple_inv_iff by blast

lemma apple_inv_endl [simp]: "apple_inv (endl l s) = apple_inv s"
  by (simp add: apple_inv_iff)

lemma fresh_bump: "fresh bump"
proof -
  have "map_of h (bump h) = None" for h
  proof -
    have "a \<in> set (map fst h) \<Longrightarrow> a < bump h" for a
      by (simp add: bump_def less_Suc_eq_le member_le_sum_list)
    then have "bump h \<notin> fst ` set h" by auto
    then show ?thesis by (simp add: map_of_eq_None_iff)
  qed
  then show ?thesis by (simp add: fresh_def fresh_at_def)
qed

text \<open>Binding an object to a block that was not in use keeps the invariant.\<close>

lemma inv_alloc:
  assumes inv: "apple_inv s" and free: "map_of (heap s) a = None"
  shows "apple_inv (s\<lparr>objs := AList.update x \<lparr>name = Some a\<rparr> (objs s),
                      heap := AList.update a \<lparr>str = c, use_count = 1\<rparr> (heap s)\<rparr>)"
    (is "apple_inv ?s'")
  unfolding apple_inv_iff
proof (intro conjI allI impI)
  fix y ap assume m: "map_of (objs ?s') y = Some ap"
  show "owns (heap ?s') ap"
  proof (cases "y = x")
    case True
    with m show ?thesis by (auto simp: owns_iff AList.update_conv')
  next
    case False
    with m have "map_of (objs s) y = Some ap" by (simp add: AList.update_conv')
    from apple_inv_owns[OF inv this] obtain p b
      where pb: "name ap = Some p" "map_of (heap s) p = Some b" "use_count b = 1" by blast
    with free have "p \<noteq> a" by auto
    with pb show ?thesis by (simp add: owns_iff AList.update_conv')
  qed
next
  fix y z ap aq
  assume my: "map_of (objs ?s') y = Some ap" and mz: "map_of (objs ?s') z = Some aq"
    and eq: "name ap = name aq"
  have other: "name v \<noteq> Some a" if "w \<noteq> x" "map_of (objs ?s') w = Some v" for w v
  proof -
    from that have "map_of (objs s) w = Some v" by (simp add: AList.update_conv')
    from apple_inv_owns[OF inv this] free show ?thesis by auto
  qed
  show "y = z"
  proof (cases "y = x"; cases "z = x")
    assume "y \<noteq> x" "z \<noteq> x"
    with my mz have "map_of (objs s) y = Some ap" "map_of (objs s) z = Some aq"
      by (simp_all add: AList.update_conv')
    from apple_inv_inj[OF inv this eq] show ?thesis .
  next
    assume "y = x" "z \<noteq> x"
    with my eq other[OF \<open>z \<noteq> x\<close> mz] show ?thesis by (auto simp: AList.update_conv')
  next
    assume "y \<noteq> x" "z = x"
    with mz eq other[OF \<open>y \<noteq> x\<close> my] show ?thesis by (auto simp: AList.update_conv')
  qed simp
qed

lemma inv_default:
  assumes "apple_inv s" "fresh_at al (heap s)"
  shows "apple_inv (Apple_default al x s)"
  using inv_alloc[OF assms(1), where a = "al (heap s)" and x = x and c = "[]"] assms(2)
  by (simp add: Apple_default_def new_string_def fresh_at_def Let_def)

lemma Apple_copy_run:
  assumes "payload s src = Inr c"
  shows "Apple_copy al x src s =
         Inr (endl ''copy constructor''
               (s\<lparr>objs := AList.update x \<lparr>name = Some (al (heap s))\<rparr> (objs s),
                  heap := AList.update (al (heap s)) \<lparr>str = c, use_count = 1\<rparr> (heap s)\<rparr>))"
  using assms
  by (auto simp: Apple_copy_def payload_def new_string_def Let_def split: option.splits)

lemma Apple_copy_Inr:
  assumes "Apple_copy al x src s = Inr s'"
  shows "\<exists>c. payload s src = Inr c"
  using assms
  by (cases "payload s src") (auto simp: Apple_copy_def payload_def split: option.splits)

lemma inv_copy:
  assumes "apple_inv s" "fresh_at al (heap s)" "Apple_copy al x src s = Inr s'"
  shows "apple_inv s'"
proof -
  from Apple_copy_Inr[OF assms(3)] obtain c where "payload s src = Inr c" ..
  from Apple_copy_run[OF this, of al x] assms(3) 
    inv_alloc[OF assms(1), where a = "al (heap s)" and x = x and c = c] assms(2)
  show ?thesis by (auto simp: fresh_at_def)
qed

lemma inv_payload:
  assumes "apple_inv s" "map_of (objs s) x = Some ap"
  shows "\<exists>c. payload s x = Inr c"
  using apple_inv_owns[OF assms] assms(2)
  by (auto simp: payload_def deref_def)


lemma Apple_name_update [simp]: "t\<lparr>name := p\<rparr> = \<lparr>name = p\<rparr>" for t :: Apple
  by (cases t) simp

lemma inv_drop:
  assumes "apple_inv s"
  shows "apple_inv (s\<lparr>objs := AList.delete x (objs s)\<rparr>)"
  using assms unfolding apple_inv_iff
  by (simp add: AList.delete_conv' split: if_splits)

lemma inv_free:
  assumes inv: "apple_inv s"
    and unused: "\<And>y ap. map_of (objs s) y = Some ap \<Longrightarrow> name ap \<noteq> Some p"
  shows "apple_inv (s\<lparr>heap := AList.delete p (heap s)\<rparr>)"
  unfolding apple_inv_iff
proof (intro conjI allI impI)
  fix y ap assume "map_of (objs (s\<lparr>heap := AList.delete p (heap s)\<rparr>)) y = Some ap"
  then have m: "map_of (objs s) y = Some ap" by simp
  from apple_inv_owns[OF inv m] obtain q b
    where qb: "name ap = Some q" "map_of (heap s) q = Some b" "use_count b = 1" by blast
  with unused[OF m] have "q \<noteq> p" by simp
  with qb show "owns (heap (s\<lparr>heap := AList.delete p (heap s)\<rparr>)) ap"
    by (auto simp: owns_iff)
next
  fix y z ap aq
  assume "map_of (objs (s\<lparr>heap := AList.delete p (heap s)\<rparr>)) y = Some ap"
    "map_of (objs (s\<lparr>heap := AList.delete p (heap s)\<rparr>)) z = Some aq" "name ap = name aq"
  then show "y = z" using apple_inv_inj[OF inv, of y ap z aq] by simp
qed

lemma release_owned:
  assumes "map_of h p = Some b" "use_count b = 1"
  shows "release (Some p) h = Inr (AList.delete p h)"
  using assms by (simp add: release_def)

lemma Apple_dtor_run:
  assumes "apple_inv s" "map_of (objs s) x = Some t"
  shows "\<exists>p. name t = Some p \<and>
     Apple_dtor x s = Inr (s\<lparr>objs := AList.delete x (objs s), heap := AList.delete p (heap s)\<rparr>)"
proof -
  from apple_inv_owns[OF assms] obtain p b
    where pb: "name t = Some p" "map_of (heap s) p = Some b" "use_count b = 1" by blast
  with assms(2) release_owned[OF pb(2,3)] show ?thesis
    by (simp add: Apple_dtor_def)
qed

lemma inv_dtor:
  assumes inv: "apple_inv s" and run: "Apple_dtor x s = Inr s'"
  shows "apple_inv s'"
proof -
  from run obtain t where t: "map_of (objs s) x = Some t"
    by (auto simp: Apple_dtor_def split: option.splits)
  from Apple_dtor_run[OF inv t] run obtain p where p: "name t = Some p"
    and s': "s' = s\<lparr>objs := AList.delete x (objs s), heap := AList.delete p (heap s)\<rparr>"
    by auto
  let ?s1 = "s\<lparr>objs := AList.delete x (objs s)\<rparr>"
  have 1: "apple_inv ?s1" by (rule inv_drop[OF inv])
  have "name ap \<noteq> Some p" if "map_of (objs ?s1) y = Some ap" for y ap
  proof -
    from that have "y \<noteq> x" "map_of (objs s) y = Some ap"
      by (auto simp: AList.delete_conv' split: if_splits)
    with apple_inv_inj[OF inv this(2) t] p show ?thesis by auto
  qed
  from inv_free[OF 1 this] show ?thesis by (simp add: s')
qed

lemma operator_assign_run:
  assumes inv: "apple_inv s" and src: "payload s y = Inr c"
    and t: "map_of (objs s) x = Some t" and free: "fresh_at al (heap s)"
  shows "\<exists>p. name t = Some p \<and> p \<noteq> al (heap s) \<and>
     operator_assign al x y s =
       Inr (x, endl ''operator=''
                 (s\<lparr>objs := AList.update x \<lparr>name = Some (al (heap s))\<rparr> (objs s),
                    heap := AList.delete p
                      (AList.update (al (heap s)) \<lparr>str = c, use_count = 1\<rparr> (heap s))\<rparr>))"
proof -
  from apple_inv_owns[OF inv t] obtain p b
    where pb: "name t = Some p" "map_of (heap s) p = Some b" "use_count b = 1" by blast
  with free have ne: "p \<noteq> al (heap s)" by (auto simp: fresh_at_def)
  let ?h1 = "AList.update (al (heap s)) \<lparr>str = c, use_count = 1\<rparr> (heap s)"
  from ne pb have "map_of ?h1 p = Some b" by (simp add: AList.update_conv')
  from release_owned[OF this pb(3)] src t pb(1) ne show ?thesis
    by (auto simp: operator_assign_def payload_def new_string_def Let_def split: option.splits)
qed

lemma inv_assign:
  assumes inv: "apple_inv s" and src: "payload s y = Inr c"
    and t: "map_of (objs s) x = Some t" and free: "fresh_at al (heap s)"
    and run: "operator_assign al x y s = Inr (r, s')"
  shows "apple_inv s'"
proof -
  let ?a = "al (heap s)"
  from operator_assign_run[OF inv src t free] run obtain p where p: "name t = Some p" "p \<noteq> ?a"
    and s': "s' = endl ''operator=''
                 (s\<lparr>objs := AList.update x \<lparr>name = Some ?a\<rparr> (objs s),
                    heap := AList.delete p
                      (AList.update ?a \<lparr>str = c, use_count = 1\<rparr> (heap s))\<rparr>)"
    by auto
  let ?s1 = "s\<lparr>objs := AList.update x \<lparr>name = Some ?a\<rparr> (objs s),
                heap := AList.update ?a \<lparr>str = c, use_count = 1\<rparr> (heap s)\<rparr>"
  from free have 1: "apple_inv ?s1" by (intro inv_alloc[OF inv]) (simp add: fresh_at_def)
  have "name ap \<noteq> Some p" if "map_of (objs ?s1) z = Some ap" for z ap
  proof (cases "z = x")
    case True with that p show ?thesis by (auto simp: AList.update_conv')
  next
    case False
    with that have "map_of (objs s) z = Some ap" by (simp add: AList.update_conv')
    with apple_inv_inj[OF inv this t] p False show ?thesis by auto
  qed
  from inv_free[OF 1 this] show ?thesis by (simp add: s')
qed

lemma func_run:
  assumes "payload s x = Inr c"
  shows "func al x s =
         Inr (s\<lparr>objs := AList.delete ''app'' (objs s),
                heap := AList.delete (al (heap s)) (heap s),
                cout := cout s @ [''copy constructor'', ''func'']\<rparr>)"
  by (simp add: func_def Apple_copy_run[OF assms] Apple_dtor_def release_def Let_def
      AList.update_conv' AList.delete_update_same endl_def)

text \<open>The run of \<open>main\<close>, state by state: \<open>a1\<close> to \<open>a4\<close> are the addresses the allocator
  returns for \<open>_1\<close>, \<open>_2\<close>, \<open>_3\<close> and the parameter of \<open>func\<close>.\<close>

lemma main_run:
  assumes al: "fresh al"
  shows "main al (start h) =
         Inr (0, \<lparr>objs = [], heap = h,
                  cout = [''default constructor'', ''copy constructor'', ''copy constructor'',
                          ''test func parameter'', ''copy constructor'', ''func'',
                          ''r_func'', ''p_func'']\<rparr>)"
proof -
  let ?e = "\<lparr>str = [], use_count = 1\<rparr>"
  define a1 where "a1 = al h"
  define h1 where "h1 = AList.update a1 ?e h"
  define a2 where "a2 = al h1"
  define h2 where "h2 = AList.update a2 ?e h1"
  define a3 where "a3 = al h2"
  define h3 where "h3 = AList.update a3 ?e h2"
  define a4 where "a4 = al h3"
  have f0: "map_of h a1 = None" using al by (simp add: a1_def fresh_def fresh_at_def)
  have f1: "map_of h1 a2 = None" using al by (simp add: a2_def fresh_def fresh_at_def)
  have f2: "map_of h2 a3 = None" using al by (simp add: a3_def fresh_def fresh_at_def)
  have f3: "map_of h3 a4 = None" using al by (simp add: a4_def fresh_def fresh_at_def)
  let ?s1 = "\<lparr>objs = [(''_1'', \<lparr>name = Some a1\<rparr>)], heap = h1, cout = [''default constructor'']\<rparr>"
  have s1: "Apple_default al ''_1'' (start h) = ?s1"
    by (simp add: Apple_default_def start_def new_string_def Let_def a1_def h1_def endl_def)
  let ?s2 = "\<lparr>objs = [(''_1'', \<lparr>name = Some a1\<rparr>), (''_2'', \<lparr>name = Some a2\<rparr>)], heap = h2,
              cout = [''default constructor'', ''copy constructor'']\<rparr>"
  have p1: "payload ?s1 ''_1'' = Inr []"
    by (simp add: payload_def deref_def h1_def AList.update_conv')
  have s2: "Apple_copy al ''_2'' ''_1'' ?s1 = Inr ?s2"
    by (simp add: Apple_copy_run[OF p1] endl_def a2_def h2_def)
  let ?s3 = "\<lparr>objs = [(''_1'', \<lparr>name = Some a1\<rparr>), (''_2'', \<lparr>name = Some a2\<rparr>),
                     (''_3'', \<lparr>name = Some a3\<rparr>)], heap = h3,
              cout = [''default constructor'', ''copy constructor'', ''copy constructor'']\<rparr>"
  have p2: "payload ?s2 ''_2'' = Inr []"
    by (simp add: payload_def deref_def h2_def AList.update_conv')
  have s3: "Apple_copy al ''_3'' ''_2'' ?s2 = Inr ?s3"
    by (simp add: Apple_copy_run[OF p2] endl_def a3_def h3_def)
  let ?s4 = "\<lparr>objs = [(''_1'', \<lparr>name = Some a1\<rparr>), (''_2'', \<lparr>name = Some a2\<rparr>),
                     (''_3'', \<lparr>name = Some a3\<rparr>)], heap = h3,
              cout = [''default constructor'', ''copy constructor'', ''copy constructor'',
                      ''test func parameter'']\<rparr>"
  have s4: "endl ''test func parameter'' ?s3 = ?s4" by (simp add: endl_def)
  have p4: "payload ?s4 ''_1'' = Inr []"
    by (simp add: payload_def deref_def h3_def h2_def h1_def AList.update_conv')
  have del4: "AList.delete a4 h3 = h3"
    using f3 by (simp add: map_of_eq_None_iff)
  let ?s5 = "\<lparr>objs = [(''_1'', \<lparr>name = Some a1\<rparr>), (''_2'', \<lparr>name = Some a2\<rparr>),
                     (''_3'', \<lparr>name = Some a3\<rparr>)], heap = h3,
              cout = [''default constructor'', ''copy constructor'', ''copy constructor'',
                      ''test func parameter'', ''copy constructor'', ''func'']\<rparr>"
  have s5: "func al ''_1'' ?s4 = Inr ?s5"
    by (simp add: func_run[OF p4] a4_def[symmetric] del4)
  have del3: "AList.delete a3 h3 = h2"
    using f2 by (simp add: h3_def AList.delete_update_same map_of_eq_None_iff)
  have del2: "AList.delete a2 h2 = h1"
    using f1 by (simp add: h2_def AList.delete_update_same map_of_eq_None_iff)
  have del1: "AList.delete a1 h1 = h"
    using f0 by (simp add: h1_def AList.delete_update_same map_of_eq_None_iff)
  have m3: "map_of h3 a3 = Some ?e" by (simp add: h3_def AList.update_conv')
  have m2: "map_of h2 a2 = Some ?e" by (simp add: h2_def AList.update_conv')
  have m1: "map_of h1 a1 = Some ?e" by (simp add: h1_def AList.update_conv')
  show ?thesis
    unfolding main_def Let_def s1
    by (simp add: s2 s3 s4 s5 r_func_def p_func_def endl_def Apple_dtor_def release_def
        m3 m2 m1 del3 del2 del1)
qed

lemma main_observe:
  "fresh al \<Longrightarrow> observe (main al (start h)) =
     Inr (0, [''default constructor'', ''copy constructor'', ''copy constructor'',
              ''test func parameter'', ''copy constructor'', ''func'', ''r_func'', ''p_func''])"
  by (simp add: main_run observe_def)

lemma operator_assign_effect:
  assumes inv: "apple_inv s" and src: "payload s y = Inr c"
    and t: "map_of (objs s) x = Some t" and free: "fresh_at al (heap s)"
  shows "\<exists>s'. operator_assign al x y s = Inr (x, s') \<and> apple_inv s' \<and>
           cout s' = cout s @ [''operator=''] \<and> payload s' x = Inr c \<and>
           payload_addr s' x = Some (al (heap s)) \<and>
           (\<forall>z. z \<noteq> x \<longrightarrow> map_of (objs s') z = map_of (objs s) z) \<and>
           (\<forall>z. z \<noteq> x \<longrightarrow> payload s' z = payload s z)"
proof -
  from operator_assign_run[OF inv src t free] obtain p s'
    where p: "name t = Some p" "p \<noteq> al (heap s)"
      and run: "operator_assign al x y s = Inr (x, s')"
      and s': "s' = endl ''operator=''
                 (s\<lparr>objs := AList.update x \<lparr>name = Some (al (heap s))\<rparr> (objs s),
                    heap := AList.delete p
                      (AList.update (al (heap s)) \<lparr>str = c, use_count = 1\<rparr> (heap s))\<rparr>)"
    by blast
  from inv_assign[OF inv src t free run] have "apple_inv s'" .
  moreover from p have "payload s' x = Inr c"
    by (simp add: s' payload_def deref_def AList.update_conv' AList.delete_conv')
  moreover have "payload_addr s' x = Some (al (heap s))"
    by (simp add: s' payload_addr_def AList.update_conv')
  moreover have "\<forall>z. z \<noteq> x \<longrightarrow> map_of (objs s') z = map_of (objs s) z"
    by (simp add: s' AList.update_conv')
  moreover have "cout s' = cout s @ [''operator='']" by (simp add: s')
  moreover have "\<forall>z. z \<noteq> x \<longrightarrow> payload s' z = payload s z"
  proof (intro allI impI)
    fix z assume z: "z \<noteq> x"
    show "payload s' z = payload s z"
    proof (cases "map_of (objs s) z")
      case None
      with z show ?thesis by (simp add: s' payload_def AList.update_conv')
    next
      case (Some ap)
      from apple_inv_owns[OF inv Some] obtain q b
        where q: "name ap = Some q" "map_of (heap s) q = Some b" by blast
      with free have "q \<noteq> al (heap s)" by (auto simp: fresh_at_def)
      moreover from apple_inv_inj[OF inv Some t] q(1) p(1) z have "q \<noteq> p" by auto
      ultimately show ?thesis using z Some q
        by (simp add: s' payload_def deref_def AList.update_conv' AList.delete_conv')
    qed
  qed
  ultimately show ?thesis using run by blast
qed

lemma payload_unfold:
  "payload s x = Inr c \<longleftrightarrow>
   (\<exists>t p b. map_of (objs s) x = Some t \<and> name t = Some p \<and> map_of (heap s) p = Some b \<and> str b = c)"
  by (auto simp: payload_def deref_def split: option.splits)

lemma payload_cout [simp]: "payload (s\<lparr>cout := l\<rparr>) x = payload s x"
  by (simp add: payload_def split: option.splits)

lemma payload_addr_cout [simp]: "payload_addr (s\<lparr>cout := l\<rparr>) x = payload_addr s x"
  by (simp add: payload_addr_def)

lemma apple_inv_cout [simp]: "apple_inv (s\<lparr>cout := l\<rparr>) = apple_inv s"
  by (simp add: apple_inv_iff)

lemma apple_inv_start: "apple_inv (start h)"
  by (simp add: apple_inv_def start_def)

lemma inv_live_valid:
  assumes "apple_inv s" "map_of (objs s) w = Some tw"
  shows "\<exists>p b. payload_addr s w = Some p \<and> map_of (heap s) p = Some b \<and>
               use_count b = 1 \<and> payload s w = Inr (str b)"
  using apple_inv_owns[OF assms] assms(2)
  by (auto simp: payload_addr_def payload_def deref_def)

lemma Apple_default_live:
  "map_of (objs (Apple_default al z s)) z = Some \<lparr>name = Some (al (heap s))\<rparr>"
  by (simp add: Apple_default_def new_string_def Let_def AList.update_conv')

lemma fresh_delete: "fresh_at al h \<Longrightarrow> AList.delete (al h) h = h"
  by (simp add: fresh_at_def map_of_eq_None_iff)

lemma func_frame:
  assumes "payload s x = Inr c" "fresh_at al (heap s)"
  shows "func al x s = Inr (s\<lparr>objs := AList.delete ''app'' (objs s),
                             cout := cout s @ [''copy constructor'', ''func'']\<rparr>)"
  by (simp add: func_run[OF assms(1)] fresh_delete[OF assms(2)])

lemma fresh_first_fit: "fresh first_fit"
proof -
  have "map_of h (first_fit h) = None" for h :: free_store
  proof -
    define n where "n = Suc (length h)"
    let ?xs = "filter (\<lambda>a. map_of h a = None) [0 ..< n]"
    have ff: "first_fit h = hd (?xs @ [length h])"
      by (simp add: first_fit_def n_def del: upt_Suc)
    have "\<not> {0 ..< n} \<subseteq> fst ` set h"
    proof
      assume "{0 ..< n} \<subseteq> fst ` set h"
      then have "card {0 ..< n} \<le> card (fst ` set h)"
        by (intro card_mono) auto
      also have "\<dots> \<le> card (set h)" by (rule card_image_le) simp
      also have "\<dots> \<le> length h" by (rule card_length)
      finally show False by (simp add: n_def)
    qed
    then obtain a where "a \<in> {0 ..< n}" "a \<notin> fst ` set h" by blast
    then have "a \<in> set ?xs" by (simp add: map_of_eq_None_iff)
    then have ne: "?xs \<noteq> []" by (metis empty_iff empty_set)
    then have "hd ?xs \<in> set ?xs" by (rule hd_in_set)
    then have "map_of h (hd ?xs) = None" by simp
    with ne ff show ?thesis by simp
  qed
  then show ?thesis by (simp add: fresh_def fresh_at_def)
qed

section \<open>The claims\<close>

text \<open>
  Claim C1, as the program runs.  With an allocator that returns unused storage, from any
  free store, \<open>main\<close> returns 0 and has written these eight lines:
  \<open>default constructor\<close>, \<open>copy constructor\<close>, \<open>copy constructor\<close>, \<open>test func parameter\<close>,
  \<open>copy constructor\<close>, \<open>func\<close>, \<open>r_func\<close>, \<open>p_func\<close>.  No line \<open>operator=\<close> is written:
  \<open>Apple _3 = _2;\<close> is an initialisation, and \<open>main\<close> assigns nowhere.
\<close>

theorem main_output:
  assumes "fresh al"
  shows "observe (main al (start h)) =
     Inr (0, [''default constructor'', ''copy constructor'', ''copy constructor'',
              ''test func parameter'', ''copy constructor'', ''func'', ''r_func'', ''p_func''])"
  using assms by (rule main_observe)

theorem main_output_witness:
  "fresh bump \<and>
   observe (main bump (start [])) =
     Inr (0, [''default constructor'', ''copy constructor'', ''copy constructor'',
              ''test func parameter'', ''copy constructor'', ''func'', ''r_func'', ''p_func''])"
  using main_output[OF fresh_bump, of "[]"] fresh_bump by simp

text \<open>The run does not produce the nine lines of claim C1, which has \<open>operator=\<close> as
  the fourth.\<close>

theorem main_output_counterexample:
  "observe (main bump (start [])) \<noteq>
     Inr (0, [''default constructor'', ''copy constructor'', ''copy constructor'', ''operator='',
              ''test func parameter'', ''copy constructor'', ''func'', ''r_func'', ''p_func''])"
  by code_simp

text \<open>
  Claim C2.  For an object \<open>a\<close> whose payload can be read, \<open>a = a\<close> is carried out like any
  other assignment: it returns \<open>a\<close>, writes the line \<open>operator=\<close>, and \<open>a\<close> then holds a block
  at the address the allocator has just returned, which is not the address it held before
  and which has one owner and the content \<open>a\<close> had before.
\<close>

theorem self_assignment_safe:
  assumes src: "payload s a = Inr c" and free: "fresh_at al (heap s)"
  shows "\<exists>s'. operator_assign al a a s = Inr (a, s') \<and>
           cout s' = cout s @ [''operator=''] \<and>
           payload s' a = Inr c \<and>
           payload_addr s' a = Some (al (heap s)) \<and>
           payload_addr s' a \<noteq> payload_addr s a \<and>
           map_of (heap s') (al (heap s)) = Some \<lparr>str = c, use_count = 1\<rparr>"
proof -
  let ?n = "al (heap s)"
  let ?h1 = "AList.update ?n \<lparr>str = c, use_count = 1\<rparr> (heap s)"
  from src obtain t p b where t: "map_of (objs s) a = Some t" and p: "name t = Some p"
    and b: "map_of (heap s) p = Some b" "str b = c"
    unfolding payload_unfold by blast
  from b free have ne: "p \<noteq> ?n" by (auto simp: fresh_at_def)
  define h2 where "h2 = (if use_count b \<le> 1 then AList.delete p ?h1
                         else AList.update p (b\<lparr>use_count := use_count b - 1\<rparr>) ?h1)"
  let ?s' = "endl ''operator='' (s\<lparr>objs := AList.update a \<lparr>name = Some ?n\<rparr> (objs s), heap := h2\<rparr>)"
  from ne b have rel: "release (Some p) ?h1 = Inr h2"
    by (simp add: release_def h2_def AList.update_conv')
  from t p b rel have run: "operator_assign al a a s = Inr (a, ?s')"
    by (simp add: operator_assign_def deref_def new_string_def Let_def)
  from ne have new: "map_of h2 ?n = Some \<lparr>str = c, use_count = 1\<rparr>"
    by (simp add: h2_def AList.update_conv' AList.delete_conv')
  have "cout ?s' = cout s @ [''operator='']" by simp
  moreover from new have "payload ?s' a = Inr c"
    by (simp add: payload_def deref_def AList.update_conv')
  moreover have "payload_addr ?s' a = Some ?n"
    by (simp add: payload_addr_def AList.update_conv')
  moreover from t p ne have "payload_addr ?s' a \<noteq> payload_addr s a"
    by (auto simp: payload_addr_def AList.update_conv')
  moreover from new have "map_of (heap ?s') ?n = Some \<lparr>str = c, use_count = 1\<rparr>" by simp
  ultimately show ?thesis using run by blast
qed

theorem self_assignment_safe_witness:
  "payload \<lparr>objs = [(''a'', \<lparr>name = Some 4\<rparr>)], heap = [(4, \<lparr>str = ''gala'', use_count = 1\<rparr>)],
            cout = []\<rparr> ''a'' = Inr ''gala'' \<and>
   fresh_at bump [(4, \<lparr>str = ''gala'', use_count = 1\<rparr>)] \<and>
   (\<exists>s'. operator_assign bump ''a'' ''a''
            \<lparr>objs = [(''a'', \<lparr>name = Some 4\<rparr>)], heap = [(4, \<lparr>str = ''gala'', use_count = 1\<rparr>)],
              cout = []\<rparr> = Inr (''a'', s') \<and>
         cout s' = [''operator=''] \<and> payload s' ''a'' = Inr ''gala'' \<and>
         payload_addr s' ''a'' = Some 5)"
proof -
  let ?s = "\<lparr>objs = [(''a'', \<lparr>name = Some 4\<rparr>)], heap = [(4, \<lparr>str = ''gala'', use_count = 1\<rparr>)],
            cout = []\<rparr>"
  have p: "payload ?s ''a'' = Inr ''gala''" by (simp add: payload_def deref_def)
  have f: "fresh_at bump (heap ?s)" by (simp add: fresh_at_def bump_def)
  have n: "bump (heap ?s) = 5" by (simp add: bump_def)
  from self_assignment_safe[OF p f] p f n show ?thesis by auto
qed

text \<open>
  Claim C3.  In a state that satisfies the invariant, with \<open>A\<close>, \<open>B\<close> and \<open>C\<close> alive, the
  assignment \<open>B = A\<close> writes the one line \<open>operator=\<close>, leaves \<open>B\<close> with the content \<open>A\<close> had,
  and returns \<open>B\<close>; so \<open>C = B = A\<close>, which assigns the result of \<open>B = A\<close> to \<open>C\<close>, is two
  assignments, writes \<open>operator=\<close> twice and leaves \<open>C\<close> and \<open>B\<close> with the content of \<open>A\<close>.
\<close>

theorem copy_assignment_chain:
  assumes inv: "apple_inv s" and al: "fresh al" and a: "payload s a = Inr ca"
    and b: "map_of (objs s) b = Some tb" and c: "map_of (objs s) c = Some tc"
  shows "\<exists>s1 s2.
           operator_assign al b a s = Inr (b, s1) \<and>
           cout s1 = cout s @ [''operator=''] \<and>
           payload s1 b = Inr ca \<and>
           bnd (operator_assign al b a s) (\<lambda>(r, s'). operator_assign al c r s') = Inr (c, s2) \<and>
           cout s2 = cout s @ [''operator='', ''operator=''] \<and>
           payload s2 c = Inr ca \<and> payload s2 b = Inr ca"
proof -
  from al have f: "fresh_at al h" for h by (simp add: fresh_def)
  from operator_assign_effect[OF inv a b f] obtain s1
    where 1: "operator_assign al b a s = Inr (b, s1)" "apple_inv s1"
      "cout s1 = cout s @ [''operator='']" "payload s1 b = Inr ca"
      "\<forall>z. z \<noteq> b \<longrightarrow> map_of (objs s1) z = map_of (objs s) z"
    by blast
  have "\<exists>tc'. map_of (objs s1) c = Some tc'"
  proof (cases "c = b")
    case True
    with 1(4) show ?thesis by (auto simp: payload_def split: option.splits)
  next
    case False
    with 1(5) c show ?thesis by simp
  qed
  then obtain tc' where c1: "map_of (objs s1) c = Some tc'" ..
  from operator_assign_effect[OF 1(2) 1(4) c1 f] obtain s2
    where 2: "operator_assign al c b s1 = Inr (c, s2)"
      "cout s2 = cout s1 @ [''operator='']" "payload s2 c = Inr ca"
      "\<forall>z. z \<noteq> c \<longrightarrow> map_of (objs s2) z = map_of (objs s1) z"
      "\<forall>z. z \<noteq> c \<longrightarrow> payload s2 z = payload s1 z"
    by blast
  have "payload s2 b = Inr ca"
  proof (cases "b = c")
    case True with 2(3) show ?thesis by simp
  next
    case False with 2(5) 1(4) show ?thesis by simp
  qed
  with 1 2 show ?thesis by simp
qed

theorem copy_assignment_chain_witness:
  "apple_inv \<lparr>objs = [(''A'', \<lparr>name = Some 0\<rparr>), (''B'', \<lparr>name = Some 1\<rparr>),
                     (''C'', \<lparr>name = Some 2\<rparr>)],
              heap = [(0, \<lparr>str = ''gala'', use_count = 1\<rparr>), (1, \<lparr>str = [], use_count = 1\<rparr>),
                      (2, \<lparr>str = ''fuji'', use_count = 1\<rparr>)],
              cout = []\<rparr> \<and>
   fresh bump \<and>
   (\<exists>s1 s2.
      operator_assign bump ''B'' ''A''
        \<lparr>objs = [(''A'', \<lparr>name = Some 0\<rparr>), (''B'', \<lparr>name = Some 1\<rparr>),
                 (''C'', \<lparr>name = Some 2\<rparr>)],
          heap = [(0, \<lparr>str = ''gala'', use_count = 1\<rparr>), (1, \<lparr>str = [], use_count = 1\<rparr>),
                  (2, \<lparr>str = ''fuji'', use_count = 1\<rparr>)],
          cout = []\<rparr> = Inr (''B'', s1) \<and>
      cout s1 = [''operator=''] \<and> payload s1 ''B'' = Inr ''gala'' \<and>
      cout s2 = [''operator='', ''operator=''] \<and> payload s2 ''C'' = Inr ''gala'')"
proof -
  let ?s = "\<lparr>objs = [(''A'', \<lparr>name = Some 0\<rparr>), (''B'', \<lparr>name = Some 1\<rparr>),
                     (''C'', \<lparr>name = Some 2\<rparr>)],
              heap = [(0, \<lparr>str = ''gala'', use_count = 1\<rparr>), (1, \<lparr>str = [], use_count = 1\<rparr>),
                      (2, \<lparr>str = ''fuji'', use_count = 1\<rparr>)],
              cout = []\<rparr>"
  have i: "apple_inv ?s"
    by (simp add: apple_inv_def owns_def payload_addr_def)
  have a: "payload ?s ''A'' = Inr ''gala''"
    by (simp add: payload_def deref_def)
  have b: "map_of (objs ?s) ''B'' = Some \<lparr>name = Some 1\<rparr>" by simp
  have c: "map_of (objs ?s) ''C'' = Some \<lparr>name = Some 2\<rparr>" by simp
  from copy_assignment_chain[OF i fresh_bump a b c] obtain s1 s2
    where "operator_assign bump ''B'' ''A'' ?s = Inr (''B'', s1)"
      "cout s1 = cout ?s @ [''operator='']" "payload s1 ''B'' = Inr ''gala''"
      "cout s2 = cout ?s @ [''operator='', ''operator='']" "payload s2 ''C'' = Inr ''gala''"
    by blast
  with i fresh_bump show ?thesis by auto
qed

text \<open>
  Claim C4.  Constructing a new object \<open>B\<close> as a copy of \<open>A\<close> writes the one line
  \<open>copy constructor\<close>; \<open>B\<close> then has the content \<open>A\<close> had, in a block with one owner at the
  address the allocator has just returned; \<open>A\<close> keeps its content and its allocation, and
  the allocations of \<open>A\<close> and \<open>B\<close> differ.
\<close>

theorem copy_construction_distinct:
  assumes src: "payload s a = Inr c" and free: "fresh_at al (heap s)"
    and new: "map_of (objs s) b = None"
  shows "\<exists>s'. Apple_copy al b a s = Inr s' \<and>
           cout s' = cout s @ [''copy constructor''] \<and>
           payload s' b = Inr c \<and> payload s' a = Inr c \<and>
           payload_addr s' b = Some (al (heap s)) \<and>
           map_of (heap s') (al (heap s)) = Some \<lparr>str = c, use_count = 1\<rparr> \<and>
           payload_addr s' a = payload_addr s a \<and>
           payload_addr s' b \<noteq> payload_addr s' a"
proof -
  let ?n = "al (heap s)"
  let ?s' = "endl ''copy constructor''
               (s\<lparr>objs := AList.update b \<lparr>name = Some ?n\<rparr> (objs s),
                  heap := AList.update ?n \<lparr>str = c, use_count = 1\<rparr> (heap s)\<rparr>)"
  from src obtain t p blk where t: "map_of (objs s) a = Some t" and p: "name t = Some p"
    and blk: "map_of (heap s) p = Some blk" "str blk = c"
    unfolding payload_unfold by blast
  from blk free have ne: "p \<noteq> ?n" by (auto simp: fresh_at_def)
  from t new have ab: "a \<noteq> b" by auto
  have run: "Apple_copy al b a s = Inr ?s'" by (rule Apple_copy_run[OF src])
  have "cout ?s' = cout s @ [''copy constructor'']" by simp
  moreover have "payload ?s' b = Inr c"
    by (simp add: payload_def deref_def AList.update_conv')
  moreover from ab t p blk ne have "payload ?s' a = Inr c"
    by (simp add: payload_def deref_def AList.update_conv')
  moreover have "payload_addr ?s' b = Some ?n"
    by (simp add: payload_addr_def AList.update_conv')
  moreover have "map_of (heap ?s') ?n = Some \<lparr>str = c, use_count = 1\<rparr>"
    by (simp add: AList.update_conv')
  moreover from ab have "payload_addr ?s' a = payload_addr s a"
    by (simp add: payload_addr_def AList.update_conv')
  moreover from ab t p ne have "payload_addr ?s' b \<noteq> payload_addr ?s' a"
    by (simp add: payload_addr_def AList.update_conv')
  ultimately show ?thesis using run by blast
qed

theorem copy_construction_distinct_witness:
  "payload \<lparr>objs = [(''A'', \<lparr>name = Some 0\<rparr>)], heap = [(0, \<lparr>str = ''gala'', use_count = 1\<rparr>)],
            cout = []\<rparr> ''A'' = Inr ''gala'' \<and>
   fresh_at first_fit [(0, \<lparr>str = ''gala'', use_count = 1\<rparr>)] \<and>
   map_of [(''A'', \<lparr>name = Some 0\<rparr>)] ''B'' = None \<and>
   (\<exists>s'. Apple_copy first_fit ''B'' ''A''
            \<lparr>objs = [(''A'', \<lparr>name = Some 0\<rparr>)], heap = [(0, \<lparr>str = ''gala'', use_count = 1\<rparr>)],
              cout = []\<rparr> = Inr s' \<and>
         cout s' = [''copy constructor''] \<and> payload s' ''B'' = Inr ''gala'' \<and>
         payload_addr s' ''B'' = Some 1 \<and> payload_addr s' ''A'' = Some 0)"
proof -
  let ?s = "\<lparr>objs = [(''A'', \<lparr>name = Some 0\<rparr>)], heap = [(0, \<lparr>str = ''gala'', use_count = 1\<rparr>)],
            cout = []\<rparr>"
  have n: "first_fit [(0, \<lparr>str = ''gala'', use_count = 1\<rparr>)] = 1" by code_simp
  have p: "payload ?s ''A'' = Inr ''gala''" by (simp add: payload_def deref_def)
  have f: "fresh_at first_fit (heap ?s)" using n by (simp add: fresh_at_def)
  have b: "map_of (objs ?s) ''B'' = None" by simp
  have a: "payload_addr ?s ''A'' = Some 0" by (simp add: payload_addr_def)
  from copy_construction_distinct[OF p f b] p f n a show ?thesis by auto
qed

text \<open>
  Claim C5.  For an object \<open>x\<close> whose payload can be read, the call \<open>func(x)\<close> runs the copy
  constructor once, for the parameter, which writes \<open>copy constructor\<close>; then the body writes
  \<open>func\<close>, and the call returns having written these two lines.  \<open>r_func(x)\<close> and
  \<open>p_func(&x)\<close> change nothing but the output, to which they add the single line \<open>r_func\<close>
  and \<open>p_func\<close>.
\<close>

theorem parameter_passing_log:
  assumes "payload s x = Inr c"
  shows "\<exists>s1 s'.
           Apple_copy al ''app'' x s = Inr s1 \<and>
           cout s1 = cout s @ [''copy constructor''] \<and>
           func al x s = Apple_dtor ''app'' (endl ''func'' s1) \<and>
           func al x s = Inr s' \<and>
           cout s' = cout s @ [''copy constructor'', ''func''] \<and>
           r_func x s = s\<lparr>cout := cout s @ [''r_func'']\<rparr> \<and>
           p_func (Some x) s = s\<lparr>cout := cout s @ [''p_func'']\<rparr>"
proof -
  let ?s1 = "endl ''copy constructor''
               (s\<lparr>objs := AList.update ''app'' \<lparr>name = Some (al (heap s))\<rparr> (objs s),
                  heap := AList.update (al (heap s)) \<lparr>str = c, use_count = 1\<rparr> (heap s)\<rparr>)"
  have copy: "Apple_copy al ''app'' x s = Inr ?s1" by (rule Apple_copy_run[OF assms])
  have body: "func al x s = Apple_dtor ''app'' (endl ''func'' ?s1)"
    by (simp add: func_def copy Let_def)
  have line: "cout ?s1 = cout s @ [''copy constructor'']" by simp
  have ret: "cout (s\<lparr>objs := AList.delete ''app'' (objs s),
                heap := AList.delete (al (heap s)) (heap s),
                cout := cout s @ [''copy constructor'', ''func'']\<rparr>)
             = cout s @ [''copy constructor'', ''func'']" by simp
  have refs: "r_func x s = s\<lparr>cout := cout s @ [''r_func'']\<rparr>"
    "p_func (Some x) s = s\<lparr>cout := cout s @ [''p_func'']\<rparr>"
    by (simp_all add: r_func_def p_func_def endl_def)
  from copy body line func_run[OF assms, of al] ret refs show ?thesis by blast
qed

theorem parameter_passing_log_witness:
  "payload \<lparr>objs = [(''_1'', \<lparr>name = Some 3\<rparr>)], heap = [(3, \<lparr>str = ''gala'', use_count = 1\<rparr>)],
            cout = []\<rparr> ''_1'' = Inr ''gala'' \<and>
   (\<exists>s'. func bump ''_1''
            \<lparr>objs = [(''_1'', \<lparr>name = Some 3\<rparr>)], heap = [(3, \<lparr>str = ''gala'', use_count = 1\<rparr>)],
              cout = []\<rparr> = Inr s' \<and>
         cout s' = [''copy constructor'', ''func''])"
proof -
  let ?s = "\<lparr>objs = [(''_1'', \<lparr>name = Some 3\<rparr>)], heap = [(3, \<lparr>str = ''gala'', use_count = 1\<rparr>)],
            cout = []\<rparr>"
  have p: "payload ?s ''_1'' = Inr ''gala''" by (simp add: payload_def deref_def)
  from parameter_passing_log[OF p, of bump] p show ?thesis by auto
qed

text \<open>
  Claim C6.  Default construction writes the one line \<open>default constructor\<close>, and the payload
  of the new object is the empty string, in a block with one owner at the address the
  allocator has just returned.
\<close>

theorem default_construction_empty:
  "cout (Apple_default al x s) = cout s @ [''default constructor''] \<and>
   payload (Apple_default al x s) x = Inr [] \<and>
   payload_addr (Apple_default al x s) x = Some (al (heap s)) \<and>
   map_of (heap (Apple_default al x s)) (al (heap s)) = Some \<lparr>str = [], use_count = 1\<rparr>"
  by (simp add: Apple_default_def new_string_def Let_def payload_def payload_addr_def deref_def
      AList.update_conv')

text \<open>
  Claim C7.  The invariant holds when \<open>main\<close> is entered, and from any state in which it
  holds (the entry state, where no object is alive, is one) each operation returns and
  leads to a state in which it holds.  After default construction, copy construction and
  copy assignment the object constructed or assigned to is alive, its \<open>name\<close> is not empty
  and points to a block of the free store of which it is the one owner, and its payload
  is the string of that block.  Destruction and the calls of \<open>func\<close>, \<open>r_func\<close> and \<open>p_func\<close>
  keep the invariant too.  In every state in which the invariant holds, every object alive
  has such a payload.
\<close>

theorem payload_never_absent:
  assumes inv: "apple_inv s" and free: "fresh_at al (heap s)"
  shows "apple_inv (start h) \<and>
    (apple_inv (Apple_default al z s) \<and>
     (\<exists>p b. payload_addr (Apple_default al z s) z = Some p \<and>
            map_of (heap (Apple_default al z s)) p = Some b \<and> use_count b = 1 \<and>
            payload (Apple_default al z s) z = Inr (str b))) \<and>
    (\<forall>y. map_of (objs s) y \<noteq> None \<longrightarrow>
       (\<exists>s2. Apple_copy al z y s = Inr s2 \<and> apple_inv s2 \<and>
          (\<exists>p b. payload_addr s2 z = Some p \<and> map_of (heap s2) p = Some b \<and>
                 use_count b = 1 \<and> payload s2 z = Inr (str b)))) \<and>
    (\<forall>x y. map_of (objs s) x \<noteq> None \<longrightarrow> map_of (objs s) y \<noteq> None \<longrightarrow>
       (\<exists>s3. operator_assign al x y s = Inr (x, s3) \<and> apple_inv s3 \<and>
          (\<exists>p b. payload_addr s3 x = Some p \<and> map_of (heap s3) p = Some b \<and>
                 use_count b = 1 \<and> payload s3 x = Inr (str b)))) \<and>
    (\<forall>x. map_of (objs s) x \<noteq> None \<longrightarrow> (\<exists>s4. Apple_dtor x s = Inr s4 \<and> apple_inv s4)) \<and>
    (\<forall>y. map_of (objs s) y \<noteq> None \<longrightarrow> (\<exists>s5. func al y s = Inr s5 \<and> apple_inv s5)) \<and>
    apple_inv (r_func r s) \<and> apple_inv (p_func q s) \<and>
    (\<forall>s'. apple_inv s' \<longrightarrow>
       (\<forall>w. map_of (objs s') w \<noteq> None \<longrightarrow>
          (\<exists>p b. payload_addr s' w = Some p \<and> map_of (heap s') p = Some b \<and>
                 use_count b = 1 \<and> payload s' w = Inr (str b))))"
proof (intro conjI allI impI)
  show "apple_inv (start h)" by (rule apple_inv_start)
next
  show i1: "apple_inv (Apple_default al z s)" by (rule inv_default[OF inv free])
  show "\<exists>p b. payload_addr (Apple_default al z s) z = Some p \<and>
            map_of (heap (Apple_default al z s)) p = Some b \<and> use_count b = 1 \<and>
            payload (Apple_default al z s) z = Inr (str b)"
    by (rule inv_live_valid[OF i1 Apple_default_live])
next
  fix y assume "map_of (objs s) y \<noteq> None"
  then obtain ty where src: "map_of (objs s) y = Some ty" by blast
  from inv_payload[OF inv src] obtain c where pay: "payload s y = Inr c" ..
  let ?s2 = "endl ''copy constructor''
               (s\<lparr>objs := AList.update z \<lparr>name = Some (al (heap s))\<rparr> (objs s),
                  heap := AList.update (al (heap s)) \<lparr>str = c, use_count = 1\<rparr> (heap s)\<rparr>)"
  have run: "Apple_copy al z y s = Inr ?s2" by (rule Apple_copy_run[OF pay])
  have i2: "apple_inv ?s2" by (rule inv_copy[OF inv free run])
  have live: "map_of (objs ?s2) z = Some \<lparr>name = Some (al (heap s))\<rparr>"
    by (simp add: AList.update_conv')
  from run i2 inv_live_valid[OF i2 live]
  show "\<exists>s2. Apple_copy al z y s = Inr s2 \<and> apple_inv s2 \<and>
          (\<exists>p b. payload_addr s2 z = Some p \<and> map_of (heap s2) p = Some b \<and>
                 use_count b = 1 \<and> payload s2 z = Inr (str b))"
    by blast
next
  fix x y assume "map_of (objs s) x \<noteq> None" "map_of (objs s) y \<noteq> None"
  then obtain tx ty where tgt: "map_of (objs s) x = Some tx"
    and src: "map_of (objs s) y = Some ty" by blast
  from inv_payload[OF inv src] obtain c where pay: "payload s y = Inr c" ..
  from operator_assign_effect[OF inv pay tgt free] obtain s3
    where run: "operator_assign al x y s = Inr (x, s3)" and i3: "apple_inv s3"
      and p3: "payload s3 x = Inr c" by blast
  from p3 obtain t3 where live: "map_of (objs s3) x = Some t3"
    unfolding payload_unfold by blast
  from run i3 inv_live_valid[OF i3 live]
  show "\<exists>s3. operator_assign al x y s = Inr (x, s3) \<and> apple_inv s3 \<and>
          (\<exists>p b. payload_addr s3 x = Some p \<and> map_of (heap s3) p = Some b \<and>
                 use_count b = 1 \<and> payload s3 x = Inr (str b))"
    by blast
next
  fix x assume "map_of (objs s) x \<noteq> None"
  then obtain tx where tgt: "map_of (objs s) x = Some tx" by blast
  from Apple_dtor_run[OF inv tgt] obtain s4 where s4: "Apple_dtor x s = Inr s4" by blast
  with inv_dtor[OF inv s4] show "\<exists>s4. Apple_dtor x s = Inr s4 \<and> apple_inv s4" by blast
next
  fix y assume "map_of (objs s) y \<noteq> None"
  then obtain ty where src: "map_of (objs s) y = Some ty" by blast
  from inv_payload[OF inv src] obtain c where pay: "payload s y = Inr c" ..
  have "apple_inv (s\<lparr>objs := AList.delete ''app'' (objs s),
                     cout := cout s @ [''copy constructor'', ''func'']\<rparr>)"
    using inv_drop[OF inv, of "''app''"] by simp
  with func_frame[OF pay free] show "\<exists>s5. func al y s = Inr s5 \<and> apple_inv s5" by simp
next
  show "apple_inv (r_func r s)" using inv by (simp add: r_func_def)
  show "apple_inv (p_func q s)" using inv by (simp add: p_func_def)
next
  fix s' w assume i: "apple_inv s'" and "map_of (objs s') w \<noteq> None"
  then obtain tw where "map_of (objs s') w = Some tw" by blast
  from inv_live_valid[OF i this]
  show "\<exists>p b. payload_addr s' w = Some p \<and> map_of (heap s') p = Some b \<and>
                 use_count b = 1 \<and> payload s' w = Inr (str b)" .
qed

theorem payload_never_absent_witness:
  "apple_inv (start []) \<and> fresh_at bump (heap (start [])) \<and>
   apple_inv (Apple_default bump ''_1'' (start [])) \<and>
   payload_addr (Apple_default bump ''_1'' (start [])) ''_1'' = Some 1 \<and>
   payload (Apple_default bump ''_1'' (start [])) ''_1'' = Inr [] \<and>
   apple_inv \<lparr>objs = [(''A'', \<lparr>name = Some 0\<rparr>), (''B'', \<lparr>name = Some 1\<rparr>)],
              heap = [(0, \<lparr>str = ''gala'', use_count = 1\<rparr>), (1, \<lparr>str = [], use_count = 1\<rparr>)],
              cout = []\<rparr> \<and>
   fresh_at bump [(0, \<lparr>str = ''gala'', use_count = 1\<rparr>), (1, \<lparr>str = [], use_count = 1\<rparr>)] \<and>
   map_of [(''A'', \<lparr>name = Some 0\<rparr>), (''B'', \<lparr>name = Some (1::nat)\<rparr>)] ''A'' \<noteq> None \<and>
   map_of [(''A'', \<lparr>name = Some 0\<rparr>), (''B'', \<lparr>name = Some (1::nat)\<rparr>)] ''B'' \<noteq> None \<and>
   (\<exists>s2. Apple_copy bump ''C'' ''A''
            \<lparr>objs = [(''A'', \<lparr>name = Some 0\<rparr>), (''B'', \<lparr>name = Some 1\<rparr>)],
              heap = [(0, \<lparr>str = ''gala'', use_count = 1\<rparr>), (1, \<lparr>str = [], use_count = 1\<rparr>)],
              cout = []\<rparr> = Inr s2 \<and>
          apple_inv s2 \<and>
          (\<exists>p b. payload_addr s2 ''C'' = Some p \<and> map_of (heap s2) p = Some b \<and>
                 use_count b = 1 \<and> payload s2 ''C'' = Inr (str b))) \<and>
   (\<exists>s3. operator_assign bump ''B'' ''A''
            \<lparr>objs = [(''A'', \<lparr>name = Some 0\<rparr>), (''B'', \<lparr>name = Some 1\<rparr>)],
              heap = [(0, \<lparr>str = ''gala'', use_count = 1\<rparr>), (1, \<lparr>str = [], use_count = 1\<rparr>)],
              cout = []\<rparr> = Inr (''B'', s3) \<and>
          apple_inv s3 \<and>
          (\<exists>p b. payload_addr s3 ''B'' = Some p \<and> map_of (heap s3) p = Some b \<and>
                 use_count b = 1 \<and> payload s3 ''B'' = Inr (str b))) \<and>
   (\<exists>s4. Apple_dtor ''B''
            \<lparr>objs = [(''A'', \<lparr>name = Some 0\<rparr>), (''B'', \<lparr>name = Some 1\<rparr>)],
              heap = [(0, \<lparr>str = ''gala'', use_count = 1\<rparr>), (1, \<lparr>str = [], use_count = 1\<rparr>)],
              cout = []\<rparr> = Inr s4 \<and> apple_inv s4) \<and>
   (\<exists>s5. func bump ''A''
            \<lparr>objs = [(''A'', \<lparr>name = Some 0\<rparr>), (''B'', \<lparr>name = Some 1\<rparr>)],
              heap = [(0, \<lparr>str = ''gala'', use_count = 1\<rparr>), (1, \<lparr>str = [], use_count = 1\<rparr>)],
              cout = []\<rparr> = Inr s5 \<and> apple_inv s5)"
proof -
  let ?s = "\<lparr>objs = [(''A'', \<lparr>name = Some 0\<rparr>), (''B'', \<lparr>name = Some 1\<rparr>)],
              heap = [(0, \<lparr>str = ''gala'', use_count = 1\<rparr>), (1, \<lparr>str = [], use_count = 1\<rparr>)],
              cout = []\<rparr>"
  have i0: "apple_inv (start [])" by (simp add: apple_inv_def start_def)
  have f0: "fresh_at bump (heap (start []))" by (simp add: fresh_at_def start_def)
  have d0: "payload_addr (Apple_default bump ''_1'' (start [])) ''_1'' = Some 1"
    "payload (Apple_default bump ''_1'' (start [])) ''_1'' = Inr []"
    by (simp_all add: Apple_default_def new_string_def Let_def start_def bump_def
        payload_addr_def payload_def deref_def endl_def)
  have i: "apple_inv ?s" by (simp add: apple_inv_def owns_def payload_addr_def)
  have f: "fresh_at bump (heap ?s)" by (simp add: fresh_at_def bump_def)
  have a: "map_of (objs ?s) ''A'' \<noteq> None" by simp
  have b: "map_of (objs ?s) ''B'' \<noteq> None" by simp
  note entry = payload_never_absent[OF i0 f0, of "[]" "''_1''" "''_1''" None]
  note later = payload_never_absent[OF i f, of "[]" "''C''" "''A''" None]
  from entry have e1: "apple_inv (Apple_default bump ''_1'' (start []))" by blast
  from later a have c2: "\<exists>s2. Apple_copy bump ''C'' ''A'' ?s = Inr s2 \<and> apple_inv s2 \<and>
          (\<exists>p b. payload_addr s2 ''C'' = Some p \<and> map_of (heap s2) p = Some b \<and>
                 use_count b = 1 \<and> payload s2 ''C'' = Inr (str b))" by blast
  from later a b have c3: "\<exists>s3. operator_assign bump ''B'' ''A'' ?s = Inr (''B'', s3) \<and>
          apple_inv s3 \<and>
          (\<exists>p b. payload_addr s3 ''B'' = Some p \<and> map_of (heap s3) p = Some b \<and>
                 use_count b = 1 \<and> payload s3 ''B'' = Inr (str b))" by blast
  from later b have c4: "\<exists>s4. Apple_dtor ''B'' ?s = Inr s4 \<and> apple_inv s4" by blast
  from later a have c5: "\<exists>s5. func bump ''A'' ?s = Inr s5 \<and> apple_inv s5" by blast
  from i0 f0 e1 d0 i f a b c2 c3 c4 c5 show ?thesis by simp
qed

text \<open>
  Claim C8.  Any sequence of calls, each \<open>r_func(x)\<close> or \<open>p_func(&x)\<close> (\<open>True\<close> stands for the
  first), changes the state in the output only: one line \<open>r_func\<close> or \<open>p_func\<close> per call, none
  of them \<open>copy constructor\<close>.  The payload of \<open>x\<close>, its allocation and the free store are
  what they were before the first call.
\<close>

theorem ref_ptr_calls_frame:
  "fold (\<lambda>r. if r then r_func x else p_func (Some x)) calls s =
     s\<lparr>cout := cout s @ map (\<lambda>r. if r then ''r_func'' else ''p_func'') calls\<rparr> \<and>
   payload (fold (\<lambda>r. if r then r_func x else p_func (Some x)) calls s) x = payload s x \<and>
   payload_addr (fold (\<lambda>r. if r then r_func x else p_func (Some x)) calls s) x = payload_addr s x \<and>
   heap (fold (\<lambda>r. if r then r_func x else p_func (Some x)) calls s) = heap s \<and>
   ''copy constructor'' \<notin> set (map (\<lambda>r. if r then ''r_func'' else ''p_func'') calls)"
proof -
  have run: "fold (\<lambda>r. if r then r_func x else p_func (Some x)) calls s =
     s\<lparr>cout := cout s @ map (\<lambda>r. if r then ''r_func'' else ''p_func'') calls\<rparr>"
    by (induction calls arbitrary: s) (simp_all add: r_func_def p_func_def endl_def)
  show ?thesis
    unfolding run by auto
qed

text \<open>
  Claim C9.  For an object \<open>x\<close> whose payload can be read, with the storage of the parameter
  not in use before the call, \<open>func(x)\<close> returns and leaves the objects and the free store as
  they were: \<open>x\<close> has the content and the allocation it had.
\<close>

theorem func_by_value_frame:
  assumes "payload s x = Inr c" and "fresh_at al (heap s)"
    and "map_of (objs s) ''app'' = None"
  shows "\<exists>s'. func al x s = Inr s' \<and>
           payload s' x = Inr c \<and>
           payload_addr s' x = payload_addr s x \<and>
           objs s' = objs s \<and> heap s' = heap s"
proof -
  from assms(3) have "AList.delete ''app'' (objs s) = objs s"
    by (simp add: map_of_eq_None_iff)
  with func_frame[OF assms(1,2)] assms(1)
  show ?thesis by simp
qed

theorem func_by_value_frame_witness:
  "payload \<lparr>objs = [(''_1'', \<lparr>name = Some 0\<rparr>)], heap = [(0, \<lparr>str = ''gala'', use_count = 1\<rparr>)],
            cout = []\<rparr> ''_1'' = Inr ''gala'' \<and>
   fresh_at first_fit [(0, \<lparr>str = ''gala'', use_count = 1\<rparr>)] \<and>
   map_of [(''_1'', \<lparr>name = Some 0\<rparr>)] ''app'' = None \<and>
   (\<exists>s'. func first_fit ''_1''
            \<lparr>objs = [(''_1'', \<lparr>name = Some 0\<rparr>)], heap = [(0, \<lparr>str = ''gala'', use_count = 1\<rparr>)],
              cout = []\<rparr> = Inr s' \<and>
         payload s' ''_1'' = Inr ''gala'' \<and> payload_addr s' ''_1'' = Some 0 \<and>
         heap s' = [(0, \<lparr>str = ''gala'', use_count = 1\<rparr>)])"
proof -
  let ?s = "\<lparr>objs = [(''_1'', \<lparr>name = Some 0\<rparr>)], heap = [(0, \<lparr>str = ''gala'', use_count = 1\<rparr>)],
            cout = []\<rparr>"
  have n: "first_fit [(0, \<lparr>str = ''gala'', use_count = 1\<rparr>)] = 1" by code_simp
  have p: "payload ?s ''_1'' = Inr ''gala''" by (simp add: payload_def deref_def)
  have f: "fresh_at first_fit (heap ?s)" using n by (simp add: fresh_at_def)
  have b: "map_of (objs ?s) ''app'' = None" by simp
  have a: "payload_addr ?s ''_1'' = Some 0" by (simp add: payload_addr_def)
  from func_by_value_frame[OF p f b] p f a show ?thesis by auto
qed

text \<open>
  Claim C10.  What a run of \<open>main\<close> shows, its exit code and its output, is the same for any
  two allocators that return unused storage and any two free stores at entry, and every
  such run returns.
\<close>

theorem main_deterministic:
  assumes "fresh al" and "fresh al'"
  shows "observe (main al (start h)) = observe (main al' (start h')) \<and>
         (\<exists>rc out. observe (main al (start h)) = Inr (rc, out))"
  by (simp add: main_observe[OF assms(1)] main_observe[OF assms(2)])

theorem main_deterministic_witness:
  "fresh bump \<and> fresh first_fit \<and>
   observe (main bump (start [])) =
   observe (main first_fit (start [(0, \<lparr>str = ''runtime'', use_count = 1\<rparr>)]))"
  using main_deterministic[OF fresh_bump fresh_first_fit, of "[]" "[(0, \<lparr>str = ''runtime'', use_count = 1\<rparr>)]"]
    fresh_bump fresh_first_fit by simp

end
